theory Spec2Isabelle
  imports Main
begin

section \<open>The stop-word converter \<^verbatim>\<open>data/proc_stop_words.py\<close>\<close>

text \<open>
  The script is Python 2 (it imports \<^verbatim>\<open>with_statement\<close> from \<^verbatim>\<open>__future__\<close> and writes a
  \<^verbatim>\<open>str\<close> to a file opened in mode \<^verbatim>\<open>'wb'\<close>): a \<^verbatim>\<open>str\<close> is a sequence of bytes, which is
  what \<^typ>\<open>string\<close> is. On a POSIX system the default text mode of \<^verbatim>\<open>open\<close> translates
  nothing, so the content read is the content of the file.
\<close>

subsection \<open>Strings: \<^verbatim>\<open>str.strip()\<close> and \<^verbatim>\<open>str.split()\<close>\<close>

text \<open>
  The whitespace of a Python 2 byte string: the bytes 0x09 to 0x0D and 0x20
  (tab, line feed, vertical tab, form feed, carriage return, space).
\<close>

definition isspace :: "char \<Rightarrow> bool" where
  "isspace c \<longleftrightarrow>
     c = CHR 0x09 \<or> c = CHR 0x0A \<or> c = CHR 0x0B \<or> c = CHR 0x0C \<or> c = CHR 0x0D \<or> c = CHR 0x20"

text \<open>\<^verbatim>\<open>s.strip()\<close>: the whitespace at both ends is removed.\<close>

definition strip :: "string \<Rightarrow> string" where
  "strip s = rev (dropWhile isspace (rev (dropWhile isspace s)))"

text \<open>
  \<^verbatim>\<open>s.split()\<close> with no separator: whitespace is skipped, then the characters up to the
  next whitespace (or the end) are one word, and so on until the string is used up.
\<close>

function split_ws :: "string \<Rightarrow> string list" where
  "split_ws [] = []"
| "split_ws (c # cs) =
     (if isspace c then split_ws cs
      else (c # takeWhile (\<lambda>x. \<not> isspace x) cs) # split_ws (dropWhile (\<lambda>x. \<not> isspace x) cs))"
  by pat_completeness auto
termination
  by (relation "measure length") (auto simp: length_dropWhile_le less_Suc_eq_le)

subsection \<open>Files\<close>

text \<open>
  The file system the script runs in: the file every path leads to and the content of
  every existing file; what the operating system lets the process do (open a file
  for reading, read it, create or truncate a file for writing, write a chunk after the
  content written so far); and the log of the file operations done so far.
  Writes are modelled unbuffered: a chunk is in the file when \<^verbatim>\<open>write\<close> returns.
\<close>

datatype mode = RD | WB

datatype errno = ENOENT | EACCES | EIO | ENOSPC

text \<open>Python 2 raises \<^verbatim>\<open>IOError(errno, strerror, filename)\<close> from \<^verbatim>\<open>open\<close>, \<^verbatim>\<open>read\<close> and \<^verbatim>\<open>write\<close>.\<close>

datatype error = IOError errno string

datatype event =
    EvOpen mode string
  | EvRead string
  | EvWrite string string
  | EvClose string

text \<open>
  A path names a file; two paths may name the same file (\<^verbatim>\<open>f\<close> and \<^verbatim>\<open>./f\<close>, a relative and
  an absolute path, a hard or a symbolic link). A file is identified by its inode number:
  \<open>resolve\<close> gives the inode a path leads to (for a path with no file yet, the inode the
  file gets when it is created there), and the content of the existing files is kept by
  inode. The script renames and links nothing, so a run does not change \<open>resolve\<close>.
\<close>

type_synonym inode = nat

record world =
  resolve :: "string \<Rightarrow> inode"
  files :: "inode \<rightharpoonup> string"
  may_open_r :: "string \<Rightarrow> bool"
  may_read :: "string \<Rightarrow> bool"
  may_open_w :: "string \<Rightarrow> bool"
  may_write :: "string \<Rightarrow> string \<Rightarrow> string \<Rightarrow> bool"
  trace :: "event list"

definition logged :: "event \<Rightarrow> world \<Rightarrow> world" where
  "logged e s = s\<lparr>trace := trace s @ [e]\<rparr>"

text \<open>\<^verbatim>\<open>open(p)\<close>: the file the path leads to must exist and be readable.\<close>

definition open_r :: "string \<Rightarrow> world \<Rightarrow> error + world" where
  "open_r p s =
     (case files s (resolve s p) of
        None \<Rightarrow> Inl (IOError ENOENT p)
      | Some _ \<Rightarrow> if may_open_r s p then Inr (logged (EvOpen RD p) s) else Inl (IOError EACCES p))"

text \<open>\<^verbatim>\<open>f.read()\<close>: the whole content.\<close>

definition read_all :: "string \<Rightarrow> world \<Rightarrow> error + string \<times> world" where
  "read_all p s =
     (case files s (resolve s p) of
        None \<Rightarrow> Inl (IOError EIO p)
      | Some text \<Rightarrow> if may_read s p then Inr (text, logged (EvRead p) s) else Inl (IOError EIO p))"

text \<open>
  \<^verbatim>\<open>open(p, 'wb')\<close>: the file the path leads to is created if it is absent and truncated
  if it is present.
  A refused open is reported with \<open>EACCES\<close>, whatever its cause (permissions, a missing
  directory).
\<close>

definition open_w :: "string \<Rightarrow> world \<Rightarrow> error + world" where
  "open_w p s =
     (if may_open_w s p then Inr (logged (EvOpen WB p) (s\<lparr>files := (files s)(resolve s p \<mapsto> [])\<rparr>))
      else Inl (IOError EACCES p))"

text \<open>\<^verbatim>\<open>w.write(chunk)\<close>: the chunk is appended to what the file holds.\<close>

definition write_chunk :: "string \<Rightarrow> string \<Rightarrow> world \<Rightarrow> error + world" where
  "write_chunk p chunk s =
     (case files s (resolve s p) of
        None \<Rightarrow> Inl (IOError EIO p)
      | Some sofar \<Rightarrow>
          if may_write s p sofar chunk
          then Inr (logged (EvWrite p chunk) (s\<lparr>files := (files s)(resolve s p \<mapsto> sofar @ chunk)\<rparr>))
          else Inl (IOError ENOSPC p))"

text \<open>Leaving a \<^verbatim>\<open>with\<close> block closes the file, also when the block raised.\<close>

definition close :: "string \<Rightarrow> world \<Rightarrow> world" where
  "close p s = logged (EvClose p) s"

subsection \<open>The script\<close>

text \<open>
  A run returns the exception that left it, if any, and the world it leaves behind.
  The loop \<^verbatim>\<open>for word in raw: w.write("%s\n" % word)\<close> stops at the first write that raises.
\<close>

fun write_words :: "string \<Rightarrow> string list \<Rightarrow> world \<Rightarrow> error option \<times> world" where
  "write_words wname [] s = (None, s)"
| "write_words wname (word # raw) s =
     (case write_chunk wname (word @ [CHR 0x0A]) s of
        Inl e \<Rightarrow> (Some e, s)
      | Inr s' \<Rightarrow> write_words wname raw s')"

definition proc_mysql_stop_words :: "string \<Rightarrow> string \<Rightarrow> world \<Rightarrow> error option \<times> world" where
  "proc_mysql_stop_words rname wname s =
     (case open_r rname s of
        Inl e \<Rightarrow> (Some e, s)
      | Inr s1 \<Rightarrow>
         (case read_all rname s1 of
            Inl e \<Rightarrow> (Some e, close rname s1)
          | Inr (text, s2) \<Rightarrow>
             (let raw = split_ws (strip text);
                  s3 = close rname s2
              in case open_w wname s3 of
                   Inl e \<Rightarrow> (Some e, s3)
                 | Inr s4 \<Rightarrow>
                    (case write_words wname raw s4 of (r, s5) \<Rightarrow> (r, close wname s5)))))"

text \<open>
  The module level: the call is made when the file is run as a script
  (\<^verbatim>\<open>__name__ == '__main__'\<close>), whatever the command line holds; importing the module
  only defines the function.
\<close>

definition script :: "string \<Rightarrow> string list \<Rightarrow> world \<Rightarrow> error option \<times> world" where
  "script name argv s =
     (if name = ''__main__''
      then proc_mysql_stop_words ''mysql_stop_words_raw.txt'' ''TNG_STOP_WORDS_MSQL'' s
      else (None, s))"

subsection \<open>Notions of the specification\<close>

text \<open>
  The destination text of a token sequence: every token followed by one line feed, in order.
\<close>

definition destination_text :: "string list \<Rightarrow> string" where
  "destination_text toks = concat (map (\<lambda>tok. tok @ [CHR 0x0A]) toks)"

text \<open>
  The token sequence of a source text, in the words of the specification: the maximal runs
  of characters that are not whitespace, in the order of the text (\<open>acc\<close> holds the run
  being read, reversed).
\<close>

fun tokens_from :: "string \<Rightarrow> string \<Rightarrow> string list" where
  "tokens_from acc [] = (if acc = [] then [] else [rev acc])"
| "tokens_from acc (c # cs) =
     (if isspace c then (if acc = [] then tokens_from [] cs else rev acc # tokens_from [] cs)
      else tokens_from (c # acc) cs)"

definition token_sequence :: "string \<Rightarrow> string list" where
  "token_sequence source_text = tokens_from [] source_text"

text \<open>
  The lines of a file content: the stretches ended by a line feed, without it. Characters
  after the last line feed are not a line (\<open>acc\<close> holds the line being read, reversed).
\<close>

fun lines_from :: "string \<Rightarrow> string \<Rightarrow> string list" where
  "lines_from acc [] = []"
| "lines_from acc (c # cs) =
     (if c = CHR 0x0A then rev acc # lines_from [] cs else lines_from (c # acc) cs)"

definition lines_of :: "string \<Rightarrow> string list" where
  "lines_of content = lines_from [] content"

text \<open>
  The words of a run that reach the file: the loop stops at the first chunk the operating
  system refuses (\<open>sofar\<close> is what the file holds before the next write).
\<close>

fun accepted :: "world \<Rightarrow> string \<Rightarrow> string \<Rightarrow> string list \<Rightarrow> string list" where
  "accepted s p sofar [] = []"
| "accepted s p sofar (word # raw) =
     (if may_write s p sofar (word @ [CHR 0x0A])
      then word # accepted s p (sofar @ word @ [CHR 0x0A]) raw
      else [])"

text \<open>The number of open file handles after each event of a log, from \<open>n\<close> open handles.\<close>

fun handles_after :: "nat \<Rightarrow> event list \<Rightarrow> nat list" where
  "handles_after n [] = []"
| "handles_after n (EvOpen m p # evs) = Suc n # handles_after (Suc n) evs"
| "handles_after n (EvClose p # evs) = (n - 1) # handles_after (n - 1) evs"
| "handles_after n (EvRead p # evs) = n # handles_after n evs"
| "handles_after n (EvWrite p chunk # evs) = n # handles_after n evs"

text \<open>The events a run adds to the log.\<close>

definition new_events :: "world \<Rightarrow> world \<Rightarrow> event list" where
  "new_events s s' = drop (length (trace s)) (trace s')"

text \<open>The events that change a file, and the file they change.\<close>

fun written_path :: "event \<Rightarrow> string option" where
  "written_path (EvOpen WB p) = Some p"
| "written_path (EvWrite p chunk) = Some p"
| "written_path (EvOpen RD p) = None"
| "written_path (EvRead p) = None"
| "written_path (EvClose p) = None"

fun is_open :: "event \<Rightarrow> bool" where
  "is_open (EvOpen m p) = True"
| "is_open (EvRead p) = False"
| "is_open (EvWrite p chunk) = False"
| "is_open (EvClose p) = False"

text \<open>A world in which every existing file may be read and every file may be written.\<close>

definition permissive :: "(string \<Rightarrow> inode) \<Rightarrow> (inode \<rightharpoonup> string) \<Rightarrow> world" where
  "permissive names fs =
     \<lparr>resolve = names, files = fs, may_open_r = (\<lambda>p. True), may_read = (\<lambda>p. True),
      may_open_w = (\<lambda>p. True), may_write = (\<lambda>p sofar chunk. True), trace = []\<rparr>"

subsection \<open>Example worlds\<close>

text \<open>
  The paths of the examples: \<^verbatim>\<open>f\<close> and \<^verbatim>\<open>./f\<close> are two paths of one file, every other path
  named here leads to a file of its own.
\<close>

definition example_names :: "string \<Rightarrow> inode" where
  "example_names p =
     (if p = ''in'' then 1 else if p = ''out'' then 2
      else if p = ''f'' \<or> p = ''./f'' then 3
      else if p = ''mysql_stop_words_raw.txt'' then 4
      else if p = ''TNG_STOP_WORDS_MSQL'' then 5
      else 0)"

definition world_two_words :: world where
  "world_two_words = permissive example_names [1 \<mapsto> ''  a  b '', 2 \<mapsto> ''old content'']"

definition world_aliased :: world where
  "world_aliased = permissive example_names [3 \<mapsto> ''a b'']"

definition world_no_source :: world where
  "world_no_source = permissive example_names [2 \<mapsto> ''old content'']"

definition world_scenario_A :: world where
  "world_scenario_A =
     permissive example_names [1 \<mapsto> ''the   and\<newline>or'' @ [CHR 0x09] @ ''if\<newline>'']"

definition world_empty_source :: world where
  "world_empty_source = permissive example_names [1 \<mapsto> [], 2 \<mapsto> ''old content'']"

definition world_main :: world where
  "world_main = permissive example_names [4 \<mapsto> ''a able\<newline>about'']"

text \<open>A world whose device refuses every write once the file holds four bytes.\<close>

definition world_small_disk :: world where
  "world_small_disk =
     (permissive example_names [1 \<mapsto> ''a b c d''])
       \<lparr>may_write := (\<lambda>p sofar chunk. length sofar < 4)\<rparr>"

section \<open>Properties of the string operations\<close>

text \<open>Every word of a split is a non-empty run of characters that are not whitespace.\<close>

lemma split_ws_tokens:
  "tok \<in> set (split_ws s) \<Longrightarrow> tok \<noteq> [] \<and> (\<forall>c \<in> set tok. \<not> isspace c)"
proof (induction s rule: split_ws.induct)
  case 1
  then show ?case by simp
next
  case (2 c cs)
  show ?case
  proof (cases "isspace c")
    case True
    with 2 show ?thesis by simp
  next
    case False
    with 2(3) have "tok = c # takeWhile (\<lambda>x. \<not> isspace x) cs
        \<or> tok \<in> set (split_ws (dropWhile (\<lambda>x. \<not> isspace x) cs))"
      by simp
    then show ?thesis
    proof
      assume tok: "tok = c # takeWhile (\<lambda>x. \<not> isspace x) cs"
      have "\<forall>x \<in> set (takeWhile (\<lambda>x. \<not> isspace x) cs). \<not> isspace x"
        using set_takeWhileD by fastforce
      with tok False show ?thesis by simp
    next
      assume "tok \<in> set (split_ws (dropWhile (\<lambda>x. \<not> isspace x) cs))"
      with 2(2) False show ?thesis by blast
    qed
  qed
qed

lemma split_ws_skip: "split_ws (dropWhile isspace s) = split_ws s"
  by (induction s) simp_all

lemma split_ws_all_space: "\<forall>c \<in> set s. isspace c \<Longrightarrow> split_ws s = []"
  by (induction s) simp_all

text \<open>Whitespace at the end of a string adds no word.\<close>

lemma split_ws_append_space:
  "\<forall>c \<in> set sp. isspace c \<Longrightarrow> split_ws (s @ sp) = split_ws s"
proof (induction s rule: split_ws.induct)
  case 1
  then show ?case by (simp add: split_ws_all_space)
next
  case (2 c cs)
  show ?case
  proof (cases "isspace c")
    case True
    with 2 show ?thesis by simp
  next
    case False
    show ?thesis
    proof (cases "\<forall>x \<in> set cs. \<not> isspace x")
      case True
      have l: "takeWhile (\<lambda>x. \<not> isspace x) (cs @ sp) = cs"
        using True 2(3) by (cases sp) (simp_all add: takeWhile_append2 takeWhile_tail)
      have r: "dropWhile (\<lambda>x. \<not> isspace x) (cs @ sp) = sp"
        using True 2(3) by (cases sp) (simp_all add: dropWhile_append2)
      have whole: "split_ws ((c # cs) @ sp) = (c # cs) # split_ws sp"
        using False l r by simp
      have rest: "split_ws sp = []"
        using 2(3) by (rule split_ws_all_space)
      have tk: "takeWhile (\<lambda>x. \<not> isspace x) cs = cs"
        and dr: "dropWhile (\<lambda>x. \<not> isspace x) cs = []"
        using True by simp_all
      have "split_ws (c # cs) = [c # cs]"
        by (simp add: False tk dr)
      with whole rest show ?thesis by simp
    next
      case ex: False
      then have "takeWhile (\<lambda>x. \<not> isspace x) (cs @ sp) = takeWhile (\<lambda>x. \<not> isspace x) cs"
        and "dropWhile (\<lambda>x. \<not> isspace x) (cs @ sp) = dropWhile (\<lambda>x. \<not> isspace x) cs @ sp"
        by (auto simp: takeWhile_append1 dropWhile_append1)
      with False 2 show ?thesis by simp
    qed
  qed
qed

text \<open>What \<^verbatim>\<open>strip\<close> removes at the end is whitespace, so stripping changes no word.\<close>

lemma strip_decomp:
  "\<exists>sp. (\<forall>c \<in> set sp. isspace c) \<and> dropWhile isspace s = strip s @ sp"
proof -
  let ?r = "rev (dropWhile isspace s)"
  have "rev ?r = rev (dropWhile isspace ?r) @ rev (takeWhile isspace ?r)"
    by (metis rev_append takeWhile_dropWhile_id)
  then have a: "dropWhile isspace s = strip s @ rev (takeWhile isspace ?r)"
    by (simp add: strip_def)
  have b: "\<forall>c \<in> set (rev (takeWhile isspace ?r)). isspace c"
    using set_takeWhileD by fastforce
  from a b show ?thesis by blast
qed

lemma split_ws_strip: "split_ws (strip s) = split_ws s"
proof -
  obtain sp where sp: "\<forall>c \<in> set sp. isspace c" "dropWhile isspace s = strip s @ sp"
    using strip_decomp by blast
  have "split_ws (strip s) = split_ws (strip s @ sp)"
    using sp(1) by (simp add: split_ws_append_space)
  also have "\<dots> = split_ws s" using sp(2) split_ws_skip by metis
  finally show ?thesis .
qed

text \<open>A word followed by whitespace is the first word of the split.\<close>

lemma isspace_newline: "isspace (CHR 0x0A)"
  by (simp add: isspace_def)

lemma split_ws_token_first:
  assumes "tok \<noteq> []" "\<forall>c \<in> set tok. \<not> isspace c" "isspace d"
  shows "split_ws (tok @ d # rest) = tok # split_ws rest"
proof -
  obtain c cs where tok: "tok = c # cs" using assms(1) by (cases tok) auto
  have nc: "\<not> isspace c" and ncs: "\<forall>x \<in> set cs. \<not> isspace x"
    using assms(2) tok by simp_all
  have l: "takeWhile (\<lambda>x. \<not> isspace x) (cs @ d # rest) = cs"
    using ncs assms(3) by (simp add: takeWhile_append2)
  have r: "dropWhile (\<lambda>x. \<not> isspace x) (cs @ d # rest) = d # rest"
    using ncs assms(3) by (simp add: dropWhile_append2)
  show ?thesis by (simp add: tok nc l r assms(3))
qed

text \<open>Splitting the destination text of whitespace-free words gives the words back.\<close>

lemma split_ws_destination_text:
  "\<forall>tok \<in> set toks. tok \<noteq> [] \<and> (\<forall>c \<in> set tok. \<not> isspace c) \<Longrightarrow>
   split_ws (destination_text toks) = toks"
proof (induction toks)
  case Nil
  show ?case by (simp add: destination_text_def)
next
  case (Cons tok toks)
  have "destination_text (tok # toks) = tok @ CHR 0x0A # destination_text toks"
    by (simp add: destination_text_def)
  moreover have "split_ws (tok @ CHR 0x0A # destination_text toks) = tok # split_ws (destination_text toks)"
    using Cons.prems isspace_newline by (intro split_ws_token_first) simp_all
  ultimately show ?case using Cons by simp
qed

text \<open>The lines of the destination text of words without a line feed are the words.\<close>

lemma lines_from_line:
  "CHR 0x0A \<notin> set tok \<Longrightarrow>
   lines_from acc (tok @ CHR 0x0A # rest) = (rev acc @ tok) # lines_from [] rest"
  by (induction tok arbitrary: acc) auto

lemma lines_of_destination_text:
  "\<forall>tok \<in> set toks. CHR 0x0A \<notin> set tok \<Longrightarrow> lines_of (destination_text toks) = toks"
proof (induction toks)
  case Nil
  show ?case by (simp add: destination_text_def lines_of_def)
next
  case (Cons tok toks)
  have "destination_text (tok # toks) = tok @ CHR 0x0A # destination_text toks"
    by (simp add: destination_text_def)
  then have "lines_of (destination_text (tok # toks)) = tok # lines_of (destination_text toks)"
    using Cons.prems by (simp add: lines_of_def lines_from_line)
  with Cons show ?case by simp
qed

lemma split_ws_no_newline: "tok \<in> set (split_ws s) \<Longrightarrow> CHR 0x0A \<notin> set tok"
  using split_ws_tokens isspace_newline by blast

lemma lines_of_split: "lines_of (destination_text (split_ws s)) = split_ws s"
  by (rule lines_of_destination_text) (simp add: split_ws_no_newline)

lemma split_ws_fixpoint: "split_ws (strip (destination_text (split_ws s))) = split_ws s"
  unfolding split_ws_strip
  by (rule split_ws_destination_text) (simp add: split_ws_tokens)

text \<open>The split of the stripped text is the token sequence of the specification.\<close>

lemma split_ws_word:
  assumes "word \<noteq> []" "\<forall>c \<in> set word. \<not> isspace c"
  shows "split_ws word = [word]"
proof -
  obtain c cs where w: "word = c # cs" using assms(1) by (cases word) auto
  have tk: "takeWhile (\<lambda>x. \<not> isspace x) cs = cs"
    and dr: "dropWhile (\<lambda>x. \<not> isspace x) cs = []"
    using assms(2) w by simp_all
  have nc: "\<not> isspace c" using assms(2) w by simp
  show ?thesis by (simp add: w nc tk dr)
qed

lemma tokens_from_split:
  "\<forall>c \<in> set acc. \<not> isspace c \<Longrightarrow> tokens_from acc s = split_ws (rev acc @ s)"
proof (induction s arbitrary: acc)
  case Nil
  then show ?case by (simp add: split_ws_word)
next
  case (Cons c cs)
  show ?case
  proof (cases "isspace c")
    case False
    with Cons.prems have "\<forall>x \<in> set (c # acc). \<not> isspace x" by simp
    then have "tokens_from (c # acc) cs = split_ws (rev (c # acc) @ cs)"
      by (rule Cons.IH)
    with False show ?thesis by simp
  next
    case True
    have rest: "tokens_from [] cs = split_ws cs"
      using Cons.IH [of "[]"] by simp
    show ?thesis
    proof (cases "acc = []")
      case True
      with \<open>isspace c\<close> rest show ?thesis by simp
    next
      case False
      then have "split_ws (rev acc @ c # cs) = rev acc # split_ws cs"
        using Cons.prems \<open>isspace c\<close> by (intro split_ws_token_first) simp_all
      with False \<open>isspace c\<close> rest show ?thesis by simp
    qed
  qed
qed

lemma split_ws_strip_token_sequence: "split_ws (strip T) = token_sequence T"
  by (simp add: split_ws_strip token_sequence_def tokens_from_split)

text \<open>
  The words are the characters of the text that are not whitespace, unchanged and in order;
  so is the destination text, whitespace aside.
\<close>

lemma concat_split_ws: "concat (split_ws s) = filter (\<lambda>c. \<not> isspace c) s"
proof (induction s rule: split_ws.induct)
  case 1
  show ?case by simp
next
  case (2 c cs)
  show ?case
  proof (cases "isspace c")
    case True
    with 2 show ?thesis by simp
  next
    case False
    let ?P = "\<lambda>x. \<not> isspace x"
    have tw: "filter ?P (takeWhile ?P cs) = takeWhile ?P cs"
      by (induction cs) simp_all
    have "filter ?P cs = filter ?P (takeWhile ?P cs @ dropWhile ?P cs)"
      by (simp only: takeWhile_dropWhile_id)
    also have "\<dots> = takeWhile ?P cs @ filter ?P (dropWhile ?P cs)"
      by (simp only: filter_append tw)
    also have "\<dots> = takeWhile ?P cs @ concat (split_ws (dropWhile ?P cs))"
      using 2(2) [OF False] by (simp only:)
    finally have rest: "filter ?P cs = takeWhile ?P cs @ concat (split_ws (dropWhile ?P cs))" .
    have "concat (split_ws (c # cs)) = c # takeWhile ?P cs @ concat (split_ws (dropWhile ?P cs))"
      using False by simp
    also have "\<dots> = c # filter ?P cs"
      by (simp only: rest)
    also have "\<dots> = filter ?P (c # cs)"
      using False by simp
    finally show ?thesis .
  qed
qed

lemma filter_destination_text:
  "filter (\<lambda>c. \<not> isspace c) (destination_text (split_ws s)) = filter (\<lambda>c. \<not> isspace c) s"
proof -
  have "filter (\<lambda>c. \<not> isspace c) (destination_text toks) = filter (\<lambda>c. \<not> isspace c) (concat toks)" for toks
    by (induction toks) (simp_all add: destination_text_def isspace_newline)
  then show ?thesis
    by (simp add: concat_split_ws)
qed

lemma filter_strip: "filter (\<lambda>c. \<not> isspace c) (strip s) = filter (\<lambda>c. \<not> isspace c) s"
proof -
  have "filter (\<lambda>c. \<not> isspace c) (strip s) = concat (split_ws (strip s))"
    by (simp only: concat_split_ws)
  also have "\<dots> = concat (split_ws s)"
    by (simp only: split_ws_strip)
  also have "\<dots> = filter (\<lambda>c. \<not> isspace c) s"
    by (simp only: concat_split_ws)
  finally show ?thesis .
qed

section \<open>The runs of the script\<close>

text \<open>The write loop: the accepted words reach the file, in order, after what it held.\<close>

lemma accepted_cong:
  "may_write s' = may_write s \<Longrightarrow> accepted s' p sofar raw = accepted s p sofar raw"
  by (induction raw arbitrary: sofar) simp_all

lemma write_words_run:
  "files s (resolve s p) = Some sofar \<Longrightarrow>
   write_words p raw s =
     (if accepted s p sofar raw = raw then None else Some (IOError ENOSPC p),
      s\<lparr>files := (files s)(resolve s p \<mapsto> sofar @ destination_text (accepted s p sofar raw)),
        trace := trace s @ map (\<lambda>word. EvWrite p (word @ [CHR 0x0A])) (accepted s p sofar raw)\<rparr>)"
proof (induction raw arbitrary: s sofar)
  case Nil
  then show ?case by (simp add: destination_text_def fun_upd_idem)
next
  case (Cons word raw)
  show ?case
  proof (cases "may_write s p sofar (word @ [CHR 0x0A])")
    case False
    with Cons.prems show ?thesis
      by (simp add: write_chunk_def destination_text_def fun_upd_idem)
  next
    case True
    let ?s' = "logged (EvWrite p (word @ [CHR 0x0A])) (s\<lparr>files := (files s)(resolve s p \<mapsto> sofar @ word @ [CHR 0x0A])\<rparr>)"
    have w: "write_chunk p (word @ [CHR 0x0A]) s = Inr ?s'"
      using True Cons.prems by (simp add: write_chunk_def)
    have f: "files ?s' (resolve ?s' p) = Some (sofar @ word @ [CHR 0x0A])"
      by (simp add: logged_def)
    have acc: "accepted ?s' p (sofar @ word @ [CHR 0x0A]) raw = accepted s p (sofar @ word @ [CHR 0x0A]) raw"
      by (rule accepted_cong) (simp add: logged_def)
    let ?A = "accepted s p (sofar @ word @ [CHR 0x0A]) raw"
    have ih: "write_words p raw ?s' =
        (if ?A = raw then None else Some (IOError ENOSPC p),
         ?s'\<lparr>files := (files ?s')(resolve ?s' p \<mapsto> (sofar @ word @ [CHR 0x0A]) @ destination_text ?A),
              trace := trace ?s' @ map (\<lambda>word. EvWrite p (word @ [CHR 0x0A])) ?A\<rparr>)"
      using Cons.IH [OF f] unfolding acc .
    have st: "?s'\<lparr>files := (files ?s')(resolve ?s' p \<mapsto> (sofar @ word @ [CHR 0x0A]) @ destination_text ?A),
              trace := trace ?s' @ map (\<lambda>word. EvWrite p (word @ [CHR 0x0A])) ?A\<rparr>
        = s\<lparr>files := (files s)(resolve s p \<mapsto> sofar @ destination_text (word # ?A)),
            trace := trace s @ map (\<lambda>word. EvWrite p (word @ [CHR 0x0A])) (word # ?A)\<rparr>"
      by (simp add: logged_def destination_text_def)
    have "write_words p (word # raw) s = write_words p raw ?s'"
      using w by simp
    also note ih
    finally have eq: "write_words p (word # raw) s =
        (if ?A = raw then None else Some (IOError ENOSPC p),
         s\<lparr>files := (files s)(resolve s p \<mapsto> sofar @ destination_text (word # ?A)),
           trace := trace s @ map (\<lambda>word. EvWrite p (word @ [CHR 0x0A])) (word # ?A)\<rparr>)"
      unfolding st .
    have acc2: "accepted s p sofar (word # raw) = word # ?A"
      using True by simp
    show ?thesis
      by (simp only: acc2 eq list.inject simp_thms)
  qed
qed

text \<open>The five ways a run can go, by what the operating system allows.\<close>

lemma proc_missing:
  "files s (resolve s rname) = None \<Longrightarrow>
   proc_mysql_stop_words rname wname s = (Some (IOError ENOENT rname), s)"
  by (simp add: proc_mysql_stop_words_def open_r_def)

lemma proc_no_open:
  "files s (resolve s rname) = Some text \<Longrightarrow> \<not> may_open_r s rname \<Longrightarrow>
   proc_mysql_stop_words rname wname s = (Some (IOError EACCES rname), s)"
  by (simp add: proc_mysql_stop_words_def open_r_def)

lemma proc_no_read:
  "files s (resolve s rname) = Some text \<Longrightarrow> may_open_r s rname \<Longrightarrow> \<not> may_read s rname \<Longrightarrow>
   proc_mysql_stop_words rname wname s =
     (Some (IOError EIO rname), s\<lparr>trace := trace s @ [EvOpen RD rname, EvClose rname]\<rparr>)"
  by (simp add: proc_mysql_stop_words_def open_r_def read_all_def close_def logged_def)

lemma proc_no_create:
  "files s (resolve s rname) = Some text \<Longrightarrow> may_open_r s rname \<Longrightarrow> may_read s rname \<Longrightarrow>
   \<not> may_open_w s wname \<Longrightarrow>
   proc_mysql_stop_words rname wname s =
     (Some (IOError EACCES wname),
      s\<lparr>trace := trace s @ [EvOpen RD rname, EvRead rname, EvClose rname]\<rparr>)"
  by (simp add: proc_mysql_stop_words_def open_r_def read_all_def open_w_def close_def logged_def)

lemma proc_writes:
  assumes "files s (resolve s rname) = Some text" "may_open_r s rname" "may_read s rname" "may_open_w s wname"
  shows "proc_mysql_stop_words rname wname s =
     (if accepted s wname [] (split_ws (strip text)) = split_ws (strip text) then None
      else Some (IOError ENOSPC wname),
      s\<lparr>files := (files s)(resolve s wname \<mapsto> destination_text (accepted s wname [] (split_ws (strip text)))),
        trace := trace s @ [EvOpen RD rname, EvRead rname, EvClose rname, EvOpen WB wname]
          @ map (\<lambda>word. EvWrite wname (word @ [CHR 0x0A])) (accepted s wname [] (split_ws (strip text)))
          @ [EvClose wname]\<rparr>)"
proof -
  let ?raw = "split_ws (strip text)"
  let ?s4 = "s\<lparr>files := (files s)(resolve s wname \<mapsto> []),
      trace := trace s @ [EvOpen RD rname, EvRead rname, EvClose rname, EvOpen WB wname]\<rparr>"
  have f4: "files ?s4 (resolve ?s4 wname) = Some []" by simp
  have acc: "accepted ?s4 wname [] ?raw = accepted s wname [] ?raw"
    by (rule accepted_cong) simp
  have loop: "write_words wname ?raw ?s4 =
      (if accepted s wname [] ?raw = ?raw then None else Some (IOError ENOSPC wname),
       ?s4\<lparr>files := (files ?s4)(resolve ?s4 wname \<mapsto> [] @ destination_text (accepted s wname [] ?raw)),
            trace := trace ?s4 @ map (\<lambda>word. EvWrite wname (word @ [CHR 0x0A])) (accepted s wname [] ?raw)\<rparr>)"
    using write_words_run [OF f4, of ?raw] unfolding acc .
  have "proc_mysql_stop_words rname wname s =
      (case write_words wname ?raw ?s4 of (r, s5) \<Rightarrow> (r, close wname s5))"
    using assms
    by (simp add: proc_mysql_stop_words_def open_r_def read_all_def open_w_def close_def logged_def
        del: write_words.simps)
  then show ?thesis
    unfolding loop by (simp add: close_def logged_def)
qed

text \<open>A run changes no permission.\<close>

lemma proc_env:
  "resolve (snd (proc_mysql_stop_words rname wname s)) = resolve s
   \<and> may_open_r (snd (proc_mysql_stop_words rname wname s)) = may_open_r s
   \<and> may_read (snd (proc_mysql_stop_words rname wname s)) = may_read s
   \<and> may_open_w (snd (proc_mysql_stop_words rname wname s)) = may_open_w s
   \<and> may_write (snd (proc_mysql_stop_words rname wname s)) = may_write s"
proof (cases "files s (resolve s rname)")
  case None
  then show ?thesis by (simp add: proc_missing)
next
  case (Some content)
  show ?thesis
  proof (cases "may_open_r s rname")
    case False
    with Some show ?thesis by (simp add: proc_no_open)
  next
    case opn: True
    show ?thesis
    proof (cases "may_read s rname")
      case False
      with Some opn show ?thesis by (simp add: proc_no_read)
    next
      case rd: True
      show ?thesis
      proof (cases "may_open_w s wname")
        case False
        with Some opn rd show ?thesis by (simp add: proc_no_create)
      next
        case True
        with Some opn rd show ?thesis by (simp add: proc_writes)
      qed
    qed
  qed
qed

lemma proc_outcome:
  obtains
    (missing) "files s (resolve s rname) = None"
      "proc_mysql_stop_words rname wname s = (Some (IOError ENOENT rname), s)"
  | (no_open) T where "files s (resolve s rname) = Some T" "\<not> may_open_r s rname"
      "proc_mysql_stop_words rname wname s = (Some (IOError EACCES rname), s)"
  | (no_read) T where "files s (resolve s rname) = Some T" "may_open_r s rname" "\<not> may_read s rname"
      "proc_mysql_stop_words rname wname s =
         (Some (IOError EIO rname), s\<lparr>trace := trace s @ [EvOpen RD rname, EvClose rname]\<rparr>)"
  | (no_create) T where "files s (resolve s rname) = Some T" "may_open_r s rname" "may_read s rname"
      "\<not> may_open_w s wname"
      "proc_mysql_stop_words rname wname s =
         (Some (IOError EACCES wname),
          s\<lparr>trace := trace s @ [EvOpen RD rname, EvRead rname, EvClose rname]\<rparr>)"
  | (writes) T where "files s (resolve s rname) = Some T" "may_open_r s rname" "may_read s rname"
      "may_open_w s wname"
      "proc_mysql_stop_words rname wname s =
         (if accepted s wname [] (split_ws (strip T)) = split_ws (strip T) then None
          else Some (IOError ENOSPC wname),
          s\<lparr>files := (files s)(resolve s wname \<mapsto> destination_text (accepted s wname [] (split_ws (strip T)))),
            trace := trace s @ [EvOpen RD rname, EvRead rname, EvClose rname, EvOpen WB wname]
              @ map (\<lambda>word. EvWrite wname (word @ [CHR 0x0A])) (accepted s wname [] (split_ws (strip T)))
              @ [EvClose wname]\<rparr>)"
proof (cases "files s (resolve s rname)")
  case None
  then show ?thesis using missing proc_missing by blast
next
  case (Some T)
  show ?thesis
  proof (cases "may_open_r s rname")
    case False
    with Some show ?thesis using no_open proc_no_open by blast
  next
    case opn: True
    show ?thesis
    proof (cases "may_read s rname")
      case False
      with Some opn show ?thesis using no_read proc_no_read by blast
    next
      case rd: True
      show ?thesis
      proof (cases "may_open_w s wname")
        case False
        with Some opn rd show ?thesis using no_create proc_no_create by blast
      next
        case True
        with Some opn rd show ?thesis using writes proc_writes by blast
      qed
    qed
  qed
qed

text \<open>A run completes exactly when every operation is allowed.\<close>

lemma proc_success_iff:
  assumes "files s (resolve s rname) = Some T"
  shows "fst (proc_mysql_stop_words rname wname s) = None \<longleftrightarrow>
     may_open_r s rname \<and> may_read s rname \<and> may_open_w s wname
     \<and> accepted s wname [] (split_ws (strip T)) = split_ws (strip T)"
proof (cases rule: proc_outcome [of s rname wname])
  case missing
  with assms show ?thesis by simp
next
  case (no_open T')
  then show ?thesis by simp
next
  case (no_read T')
  then show ?thesis by simp
next
  case (no_create T')
  then show ?thesis by simp
next
  case (writes T')
  with assms have "T' = T" by simp
  with writes show ?thesis by simp
qed

lemma proc_success_files:
  assumes "files s (resolve s rname) = Some T" "fst (proc_mysql_stop_words rname wname s) = None"
  shows "files (snd (proc_mysql_stop_words rname wname s))
     = (files s)(resolve s wname \<mapsto> destination_text (split_ws (strip T)))"
proof -
  from assms have ok: "may_open_r s rname" "may_read s rname" "may_open_w s wname"
    "accepted s wname [] (split_ws (strip T)) = split_ws (strip T)"
    by (simp_all add: proc_success_iff)
  show ?thesis using proc_writes [OF assms(1) ok(1-3), of ] ok(4) by simp
qed

lemma accepted_all:
  "\<forall>sofar chunk. may_write s p sofar chunk \<Longrightarrow> accepted s p sofar raw = raw"
  by (induction raw arbitrary: sofar) simp_all

text \<open>
  A completed run is repeated by any world with the same permissions whose source splits
  into the same words.
\<close>

lemma proc_success_source:
  assumes "fst (proc_mysql_stop_words rname wname s) = None"
  obtains T where "files s (resolve s rname) = Some T"
  using assms by (cases rule: proc_outcome [of s rname wname]) simp_all

lemma proc_rerun:
  assumes T: "files s (resolve s rname) = Some T"
    and ok: "fst (proc_mysql_stop_words rname wname s) = None"
    and s': "files s' (resolve s' rname) = Some T'" "split_ws (strip T') = split_ws (strip T)"
    and env: "resolve s' = resolve s" "may_open_r s' = may_open_r s" "may_read s' = may_read s"
      "may_open_w s' = may_open_w s" "may_write s' = may_write s"
  shows "fst (proc_mysql_stop_words rname wname s') = None
     \<and> files (snd (proc_mysql_stop_words rname wname s'))
         = (files s')(resolve s' wname \<mapsto> destination_text (split_ws (strip T)))"
proof -
  have acc: "accepted s' wname [] (split_ws (strip T)) = accepted s wname [] (split_ws (strip T))"
    using env(5) by (rule accepted_cong)
  have ok': "fst (proc_mysql_stop_words rname wname s') = None"
    using ok proc_success_iff [OF T, of wname] proc_success_iff [OF s'(1), of wname] s'(2) env acc
    by simp
  show ?thesis
    using ok' proc_success_files [OF s'(1) ok'] s'(2) by simp
qed

text \<open>The lines of a content are as many as its line feeds.\<close>

lemma length_lines_from:
  "length (lines_from acc content) = length (filter (\<lambda>c. c = CHR 0x0A) content)"
  by (induction content arbitrary: acc) simp_all

lemma length_lines_of:
  "length (lines_of content) = length (filter (\<lambda>c. c = CHR 0x0A) content)"
  by (simp add: lines_of_def length_lines_from)

text \<open>A run completes when nothing is refused.\<close>

lemma proc_allowed:
  assumes "files s (resolve s rname) = Some T" "may_open_r s rname" "may_read s rname" "may_open_w s wname"
    "\<forall>sofar chunk. may_write s wname sofar chunk"
  shows "fst (proc_mysql_stop_words rname wname s) = None"
  using assms proc_success_iff [OF assms(1), of wname] by (simp add: accepted_all)

text \<open>Events of the log.\<close>

lemma filter_is_open_writes:
  "filter is_open (map (\<lambda>word. EvWrite p (g word)) ws) = []"
  by (induction ws) simp_all

lemma handles_after_writes:
  "handles_after n (map (\<lambda>word. EvWrite p (g word)) ws @ [EvClose p])
     = replicate (length ws) n @ [n - 1]"
  by (induction ws) simp_all

lemmas run_defs = proc_mysql_stop_words_def open_r_def read_all_def open_w_def write_chunk_def
  close_def logged_def strip_def isspace_def permissive_def example_names_def

text \<open>
  Two paths of one file: called with \<^verbatim>\<open>f\<close> and \<^verbatim>\<open>./f\<close>, the script overwrites its source,
  though the two paths differ.
\<close>

lemma second_path_overwrites_source:
  "''f'' \<noteq> ''./f''
   \<and> resolve world_aliased ''f'' = resolve world_aliased ''./f''
   \<and> files world_aliased (resolve world_aliased ''f'') = Some ''a b''
   \<and> fst (proc_mysql_stop_words ''f'' ''./f'' world_aliased) = None
   \<and> files (snd (proc_mysql_stop_words ''f'' ''./f'' world_aliased)) (resolve world_aliased ''f'')
       = Some ''a\<newline>b\<newline>''"
  by (simp add: world_aliased_def run_defs)

section \<open>The claims\<close>

text \<open>
  C1. For every source file of content \<open>T\<close>, a run that completes leaves in the destination
  exactly the words of \<^verbatim>\<open>T.strip().split()\<close>, in order, each followed by one line feed.
  These words are the token sequence of \<open>T\<close>, they are the lines of the destination, and
  they are written as they are: whitespace aside, the destination is the source, byte for
  byte. The run completes exactly when the source may be opened and read, the destination
  may be opened for writing, and every chunk is accepted.
\<close>

theorem destination_is_token_lines:
  assumes "files s (resolve s rname) = Some T"
  shows "(fst (proc_mysql_stop_words rname wname s) = None \<longleftrightarrow>
            may_open_r s rname \<and> may_read s rname \<and> may_open_w s wname
            \<and> accepted s wname [] (split_ws (strip T)) = split_ws (strip T))
       \<and> (fst (proc_mysql_stop_words rname wname s) = None \<longrightarrow>
            files (snd (proc_mysql_stop_words rname wname s)) (resolve s wname)
              = Some (destination_text (split_ws (strip T))))
       \<and> split_ws (strip T) = token_sequence T
       \<and> lines_of (destination_text (split_ws (strip T))) = split_ws (strip T)
       \<and> filter (\<lambda>c. \<not> isspace c) (destination_text (split_ws (strip T)))
           = filter (\<lambda>c. \<not> isspace c) T"
proof -
  have "filter (\<lambda>c. \<not> isspace c) (destination_text (split_ws (strip T)))
      = filter (\<lambda>c. \<not> isspace c) T"
    by (simp only: filter_destination_text filter_strip)
  moreover have "files (snd (proc_mysql_stop_words rname wname s)) (resolve s wname)
      = Some (destination_text (split_ws (strip T)))"
    if "fst (proc_mysql_stop_words rname wname s) = None"
    using proc_success_files [OF assms that] by simp
  moreover note proc_success_iff [OF assms, of wname]
    split_ws_strip_token_sequence [of T] lines_of_split [of "strip T"]
  ultimately show ?thesis by blast
qed

theorem destination_is_token_lines_witness:
  "files world_two_words (resolve world_two_words ''in'') = Some ''  a  b ''
   \<and> fst (proc_mysql_stop_words ''in'' ''out'' world_two_words) = None
   \<and> files (snd (proc_mysql_stop_words ''in'' ''out'' world_two_words)) (resolve world_two_words ''out'')
        = Some ''a\<newline>b\<newline>''
   \<and> split_ws (strip ''  a  b '') = [''a'', ''b'']
   \<and> token_sequence ''  a  b '' = [''a'', ''b'']
   \<and> lines_of ''a\<newline>b\<newline>'' = [''a'', ''b'']"
proof -
  have a: "files world_two_words (resolve world_two_words ''in'') = Some ''  a  b ''"
    by (simp add: world_two_words_def permissive_def example_names_def)
  have b: "split_ws (strip ''  a  b '') = [''a'', ''b'']"
    by (simp add: strip_def isspace_def)
  have c: "fst (proc_mysql_stop_words ''in'' ''out'' world_two_words) = None"
    by (simp add: world_two_words_def run_defs)
  have d: "destination_text [''a'', ''b''] = ''a\<newline>b\<newline>''"
    by (simp add: destination_text_def)
  show ?thesis
    using destination_is_token_lines [OF a, of "''out''"] a c
    unfolding b d by simp
qed

text \<open>
  C2. For any source content \<open>T\<close>, the destination of a completed run has as many lines
  ended by a line feed (and as many line feeds) as \<^verbatim>\<open>T.strip().split()\<close> has words.
\<close>

theorem line_count_is_token_count:
  assumes "files s (resolve s rname) = Some T" "fst (proc_mysql_stop_words rname wname s) = None"
  shows "\<exists>out. files (snd (proc_mysql_stop_words rname wname s)) (resolve s wname) = Some out
     \<and> length (lines_of out) = length (split_ws (strip T))
     \<and> length (filter (\<lambda>c. c = CHR 0x0A) out) = length (split_ws (strip T))"
proof -
  let ?out = "destination_text (split_ws (strip T))"
  have "files (snd (proc_mysql_stop_words rname wname s)) (resolve s wname) = Some ?out"
    using proc_success_files [OF assms] by simp
  moreover have "length (lines_of ?out) = length (split_ws (strip T))"
    by (simp add: lines_of_split)
  moreover have "length (filter (\<lambda>c. c = CHR 0x0A) ?out) = length (split_ws (strip T))"
    using length_lines_of [of ?out] by (simp add: lines_of_split)
  ultimately show ?thesis by blast
qed

theorem line_count_is_token_count_witness:
  "files world_two_words (resolve world_two_words ''in'') = Some ''  a  b ''
   \<and> fst (proc_mysql_stop_words ''in'' ''out'' world_two_words) = None
   \<and> length (split_ws (strip ''  a  b '')) = 2
   \<and> (\<exists>out. files (snd (proc_mysql_stop_words ''in'' ''out'' world_two_words)) (resolve world_two_words ''out'') = Some out
        \<and> length (lines_of out) = 2 \<and> length (filter (\<lambda>c. c = CHR 0x0A) out) = 2)"
proof -
  have a: "files world_two_words (resolve world_two_words ''in'') = Some ''  a  b ''"
    by (simp add: world_two_words_def permissive_def example_names_def)
  have b: "fst (proc_mysql_stop_words ''in'' ''out'' world_two_words) = None"
    by (simp add: world_two_words_def run_defs)
  have c: "length (split_ws (strip ''  a  b '')) = 2"
    by (simp add: strip_def isspace_def)
  show ?thesis
    using line_count_is_token_count [OF a b] a b c by simp
qed

text \<open>
  C3. The split produces no empty word, and the destination of a completed run consists
  of complete lines only, every one of them non-empty and free of whitespace, whatever
  runs of whitespace or blank lines the source holds.
\<close>

theorem output_lines_are_words:
  assumes "files s (resolve s rname) = Some T" "fst (proc_mysql_stop_words rname wname s) = None"
  shows "[] \<notin> set (split_ws (strip T))
     \<and> (\<exists>out. files (snd (proc_mysql_stop_words rname wname s)) (resolve s wname) = Some out
          \<and> destination_text (lines_of out) = out
          \<and> (\<forall>line \<in> set (lines_of out). line \<noteq> [] \<and> (\<forall>c \<in> set line. \<not> isspace c)))"
proof -
  let ?out = "destination_text (split_ws (strip T))"
  have "[] \<notin> set (split_ws (strip T))"
    using split_ws_tokens by blast
  moreover have "files (snd (proc_mysql_stop_words rname wname s)) (resolve s wname) = Some ?out"
    using proc_success_files [OF assms] by simp
  moreover have "destination_text (lines_of ?out) = ?out"
    by (simp add: lines_of_split)
  moreover have "\<forall>line \<in> set (lines_of ?out). line \<noteq> [] \<and> (\<forall>c \<in> set line. \<not> isspace c)"
    unfolding lines_of_split using split_ws_tokens by blast
  ultimately show ?thesis by blast
qed

theorem output_lines_are_words_witness:
  "files world_two_words (resolve world_two_words ''in'') = Some ''  a  b ''
   \<and> fst (proc_mysql_stop_words ''in'' ''out'' world_two_words) = None
   \<and> files (snd (proc_mysql_stop_words ''in'' ''out'' world_two_words)) (resolve world_two_words ''out'')
        = Some ''a\<newline>b\<newline>''
   \<and> lines_of ''a\<newline>b\<newline>'' = [''a'', ''b'']
   \<and> [] \<notin> set (split_ws (strip ''  a  b ''))"
proof -
  have a: "files world_two_words (resolve world_two_words ''in'') = Some ''  a  b ''"
    by (simp add: world_two_words_def permissive_def example_names_def)
  have b: "fst (proc_mysql_stop_words ''in'' ''out'' world_two_words) = None"
    by (simp add: world_two_words_def run_defs)
  have c: "files (snd (proc_mysql_stop_words ''in'' ''out'' world_two_words)) (resolve world_two_words ''out'')
        = Some ''a\<newline>b\<newline>''"
    by (simp add: world_two_words_def run_defs)
  have d: "lines_of ''a\<newline>b\<newline>'' = [''a'', ''b'']"
    by (simp add: lines_of_def)
  show ?thesis
    using output_lines_are_words [OF a b] a b c d by simp
qed

text \<open>
  C4. If the source does not exist, may not be opened or cannot be read, the run ends
  with the \<^verbatim>\<open>IOError\<close> of that operation on the source path, returned to the caller, and
  no file is created or changed: the destination is as it was, and no event of the run
  writes.
\<close>

theorem unreadable_source_fails:
  assumes "files s (resolve s rname) = None \<or> \<not> may_open_r s rname \<or> \<not> may_read s rname"
  shows "fst (proc_mysql_stop_words rname wname s)
       = Some (IOError (if files s (resolve s rname) = None then ENOENT
                        else if \<not> may_open_r s rname then EACCES else EIO) rname)
     \<and> files (snd (proc_mysql_stop_words rname wname s)) = files s
     \<and> (\<forall>e \<in> set (new_events s (snd (proc_mysql_stop_words rname wname s))).
            written_path e = None)"
proof (cases rule: proc_outcome [of s rname wname])
  case missing
  then show ?thesis by (simp add: new_events_def)
next
  case (no_open T)
  then show ?thesis by (simp add: new_events_def)
next
  case (no_read T)
  then show ?thesis by (simp add: new_events_def)
next
  case (no_create T)
  with assms show ?thesis by simp
next
  case (writes T)
  with assms show ?thesis by simp
qed

theorem unreadable_source_fails_witness:
  "files world_no_source (resolve world_no_source ''in'') = None
   \<and> fst (proc_mysql_stop_words ''in'' ''out'' world_no_source) = Some (IOError ENOENT ''in'')
   \<and> files (snd (proc_mysql_stop_words ''in'' ''out'' world_no_source)) = files world_no_source
   \<and> files (snd (proc_mysql_stop_words ''in'' ''out'' world_no_source)) (resolve world_no_source ''out'')
        = Some ''old content''
   \<and> new_events world_no_source (snd (proc_mysql_stop_words ''in'' ''out'' world_no_source)) = []"
proof -
  have a: "files world_no_source (resolve world_no_source ''in'') = None"
    by (simp add: world_no_source_def permissive_def example_names_def)
  have b: "files world_no_source (resolve world_no_source ''out'') = Some ''old content''"
    by (simp add: world_no_source_def permissive_def example_names_def)
  have c: "new_events world_no_source (snd (proc_mysql_stop_words ''in'' ''out'' world_no_source)) = []"
    by (simp add: new_events_def world_no_source_def run_defs)
  show ?thesis
    using unreadable_source_fails [of world_no_source "''in''" "''out''"] a b c by simp
qed

text \<open>
  C5. After a completed run, running again with the same paths completes too and leaves
  every file as the first run left it (also when the source is the destination). The
  destination is overwritten, never appended to: whatever it held before the run, or
  whether it existed at all, its content after the run is the same.
\<close>

theorem rerun_same_output:
  assumes "fst (proc_mysql_stop_words rname wname s) = None"
  shows "fst (proc_mysql_stop_words rname wname (snd (proc_mysql_stop_words rname wname s))) = None
     \<and> files (snd (proc_mysql_stop_words rname wname (snd (proc_mysql_stop_words rname wname s))))
         = files (snd (proc_mysql_stop_words rname wname s))
     \<and> (resolve s rname \<noteq> resolve s wname \<longrightarrow>
          (\<forall>old. fst (proc_mysql_stop_words rname wname
                      (s\<lparr>files := (files s)(resolve s wname := old)\<rparr>)) = None
             \<and> files (snd (proc_mysql_stop_words rname wname
                      (s\<lparr>files := (files s)(resolve s wname := old)\<rparr>))) (resolve s wname)
                 = files (snd (proc_mysql_stop_words rname wname s)) (resolve s wname)))"
proof -
  obtain T where T: "files s (resolve s rname) = Some T"
    using assms by (rule proc_success_source)
  let ?raw = "split_ws (strip T)"
  let ?s1 = "snd (proc_mysql_stop_words rname wname s)"
  have f1: "files ?s1 = (files s)(resolve s wname \<mapsto> destination_text ?raw)"
    using proc_success_files [OF T assms] .
  have env1: "resolve ?s1 = resolve s" "may_open_r ?s1 = may_open_r s" "may_read ?s1 = may_read s"
      "may_open_w ?s1 = may_open_w s" "may_write ?s1 = may_write s"
    using proc_env [of rname wname s] by simp_all
  obtain T1 where T1: "files ?s1 (resolve ?s1 rname) = Some T1" "split_ws (strip T1) = ?raw"
  proof (cases "resolve s rname = resolve s wname")
    case True
    with f1 env1(1) have "files ?s1 (resolve ?s1 rname) = Some (destination_text ?raw)" by simp
    moreover have "split_ws (strip (destination_text ?raw)) = ?raw"
      by (rule split_ws_fixpoint)
    ultimately show ?thesis using that by blast
  next
    case False
    with f1 T env1(1) have "files ?s1 (resolve ?s1 rname) = Some T" by simp
    then show ?thesis using that by blast
  qed
  have again: "fst (proc_mysql_stop_words rname wname ?s1) = None
     \<and> files (snd (proc_mysql_stop_words rname wname ?s1))
         = (files ?s1)(resolve ?s1 wname \<mapsto> destination_text ?raw)"
    using T assms T1 env1 by (rule proc_rerun)
  have same: "(files ?s1)(resolve ?s1 wname \<mapsto> destination_text ?raw) = files ?s1"
    unfolding f1 env1(1) by simp
  have other: "fst (proc_mysql_stop_words rname wname
                 (s\<lparr>files := (files s)(resolve s wname := old)\<rparr>)) = None
       \<and> files (snd (proc_mysql_stop_words rname wname
                 (s\<lparr>files := (files s)(resolve s wname := old)\<rparr>))) (resolve s wname)
           = files ?s1 (resolve s wname)" if ne: "resolve s rname \<noteq> resolve s wname" for old
  proof -
    let ?s' = "s\<lparr>files := (files s)(resolve s wname := old)\<rparr>"
    have T': "files ?s' (resolve ?s' rname) = Some T" using T ne by simp
    have "fst (proc_mysql_stop_words rname wname ?s') = None
       \<and> files (snd (proc_mysql_stop_words rname wname ?s'))
           = (files ?s')(resolve ?s' wname \<mapsto> destination_text ?raw)"
      using T assms T' by (rule proc_rerun) simp_all
    then show ?thesis using f1 by simp
  qed
  from again same other show ?thesis by simp
qed

theorem rerun_same_output_witness:
  "fst (proc_mysql_stop_words ''in'' ''out'' world_two_words) = None
   \<and> resolve world_two_words ''in'' \<noteq> resolve world_two_words ''out''
   \<and> files world_two_words (resolve world_two_words ''out'') = Some ''old content''
   \<and> files (snd (proc_mysql_stop_words ''in'' ''out'' world_two_words))
        (resolve world_two_words ''out'')
        = Some ''a\<newline>b\<newline>''
   \<and> files (snd (proc_mysql_stop_words ''in'' ''out''
        (snd (proc_mysql_stop_words ''in'' ''out'' world_two_words))))
        (resolve world_two_words ''out'')
        = Some ''a\<newline>b\<newline>''
   \<and> files (snd (proc_mysql_stop_words ''in'' ''out''
        (world_two_words\<lparr>files := (files world_two_words)(resolve world_two_words ''out'' := None)\<rparr>)))
        (resolve world_two_words ''out'')
        = Some ''a\<newline>b\<newline>''"
proof -
  have a: "fst (proc_mysql_stop_words ''in'' ''out'' world_two_words) = None"
    by (simp add: world_two_words_def run_defs)
  have b: "files world_two_words (resolve world_two_words ''out'') = Some ''old content''"
    by (simp add: world_two_words_def run_defs)
  have c: "files (snd (proc_mysql_stop_words ''in'' ''out'' world_two_words))
        (resolve world_two_words ''out'')
        = Some ''a\<newline>b\<newline>''"
    by (simp add: world_two_words_def run_defs)
  have d: "resolve world_two_words ''in'' \<noteq> resolve world_two_words ''out''"
    by (simp add: world_two_words_def run_defs)
  show ?thesis
    using rerun_same_output [OF a] a b c d by simp
qed

text \<open>
  C6, as stated (the content of the source file is unchanged in every run), fails when the
  source and the destination are the same file: the file \<^verbatim>\<open>f\<close> holding \<^verbatim>\<open>a b\<close> holds the two
  lines \<^verbatim>\<open>a\<close> and \<^verbatim>\<open>b\<close> after the call with \<^verbatim>\<open>f\<close> as both paths.
\<close>

theorem source_overwritten_counterexample:
  "files world_aliased (resolve world_aliased ''f'') = Some ''a b''
   \<and> fst (proc_mysql_stop_words ''f'' ''f'' world_aliased) = None
   \<and> files (snd (proc_mysql_stop_words ''f'' ''f'' world_aliased)) (resolve world_aliased ''f'')
       = Some ''a\<newline>b\<newline>''
   \<and> files (snd (proc_mysql_stop_words ''f'' ''f'' world_aliased)) (resolve world_aliased ''f'')
       \<noteq> files world_aliased (resolve world_aliased ''f'')"
  by (simp add: world_aliased_def run_defs)

text \<open>
  C6, amended. A run changes only the destination file: in every run, every file other
  than the one the destination path leads to is as it was, and no event of the run creates
  or writes through a path other than the destination path; the content of the source file
  is unchanged whenever the source and the destination are different files, that is,
  whenever the two paths do not lead to the same file (different paths are not enough).
\<close>

theorem only_destination_written:
  "(\<forall>i. i \<noteq> resolve s wname \<longrightarrow> files (snd (proc_mysql_stop_words rname wname s)) i = files s i)
   \<and> (resolve s rname \<noteq> resolve s wname \<longrightarrow>
        files (snd (proc_mysql_stop_words rname wname s)) (resolve s rname)
          = files s (resolve s rname))
   \<and> (\<forall>e \<in> set (new_events s (snd (proc_mysql_stop_words rname wname s))).
          written_path e = None \<or> written_path e = Some wname)"
proof (cases rule: proc_outcome [of s rname wname])
  case missing
  then show ?thesis by (simp add: new_events_def)
next
  case (no_open T)
  then show ?thesis by (simp add: new_events_def)
next
  case (no_read T)
  then show ?thesis by (simp add: new_events_def)
next
  case (no_create T)
  then show ?thesis by (simp add: new_events_def)
next
  case (writes T)
  then show ?thesis by (auto simp: new_events_def)
qed

theorem only_destination_written_witness:
  "resolve world_two_words ''in'' \<noteq> resolve world_two_words ''out''
   \<and> files (snd (proc_mysql_stop_words ''in'' ''out'' world_two_words))
        (resolve world_two_words ''in'')
       = Some ''  a  b ''
   \<and> files (snd (proc_mysql_stop_words ''in'' ''out'' world_two_words))
        (resolve world_two_words ''f'')
       = files world_two_words (resolve world_two_words ''f'')
   \<and> map written_path
         (new_events world_two_words (snd (proc_mysql_stop_words ''in'' ''out'' world_two_words)))
       = [None, None, None, Some ''out'', Some ''out'', Some ''out'', None]"
proof -
  have a: "files world_two_words (resolve world_two_words ''in'') = Some ''  a  b ''"
    by (simp add: world_two_words_def run_defs)
  have b: "map written_path
         (new_events world_two_words (snd (proc_mysql_stop_words ''in'' ''out'' world_two_words)))
       = [None, None, None, Some ''out'', Some ''out'', Some ''out'', None]"
    by (simp add: new_events_def world_two_words_def run_defs)
  have c: "resolve world_two_words ''in'' \<noteq> resolve world_two_words ''out''"
    by (simp add: world_two_words_def run_defs)
  have d: "resolve world_two_words ''f'' \<noteq> resolve world_two_words ''out''"
    by (simp add: world_two_words_def run_defs)
  show ?thesis
    using only_destination_written [of world_two_words "''out''" "''in''"] a b c d by simp
qed

text \<open>
  C7. Run as a script with no arguments, the module makes exactly one call of the
  conversion, with the source \<^verbatim>\<open>mysql_stop_words_raw.txt\<close> and the destination
  \<^verbatim>\<open>TNG_STOP_WORDS_MSQL\<close>: the files the run opens are the source for reading and then the
  destination for writing, once each when the run completes. Both names are without a
  directory part, so the operating system looks for them in the current working directory.
\<close>

theorem script_fixed_names:
  "script ''__main__'' [] s
     = proc_mysql_stop_words ''mysql_stop_words_raw.txt'' ''TNG_STOP_WORDS_MSQL'' s
   \<and> filter is_open (new_events s (snd (script ''__main__'' [] s)))
       \<in> {[], [EvOpen RD ''mysql_stop_words_raw.txt''],
           [EvOpen RD ''mysql_stop_words_raw.txt'', EvOpen WB ''TNG_STOP_WORDS_MSQL'']}
   \<and> (fst (script ''__main__'' [] s) = None \<longrightarrow>
        filter is_open (new_events s (snd (script ''__main__'' [] s)))
          = [EvOpen RD ''mysql_stop_words_raw.txt'', EvOpen WB ''TNG_STOP_WORDS_MSQL''])
   \<and> CHR ''/'' \<notin> set ''mysql_stop_words_raw.txt''
   \<and> CHR ''/'' \<notin> set ''TNG_STOP_WORDS_MSQL''"
proof -
  let ?r = "''mysql_stop_words_raw.txt''" and ?w = "''TNG_STOP_WORDS_MSQL''"
  have call: "script ''__main__'' [] s = proc_mysql_stop_words ?r ?w s"
    by (simp add: script_def)
  have opens: "filter is_open (new_events s (snd (proc_mysql_stop_words ?r ?w s)))
       \<in> {[], [EvOpen RD ?r], [EvOpen RD ?r, EvOpen WB ?w]}
     \<and> (fst (proc_mysql_stop_words ?r ?w s) = None \<longrightarrow>
        filter is_open (new_events s (snd (proc_mysql_stop_words ?r ?w s)))
          = [EvOpen RD ?r, EvOpen WB ?w])"
  proof (cases rule: proc_outcome [of s ?r ?w])
    case missing
    then show ?thesis by (simp add: new_events_def)
  next
    case (no_open T)
    then show ?thesis by (simp add: new_events_def)
  next
    case (no_read T)
    then show ?thesis by (simp add: new_events_def)
  next
    case (no_create T)
    then show ?thesis by (simp add: new_events_def)
  next
    case (writes T)
    then show ?thesis by (simp add: new_events_def filter_is_open_writes)
  qed
  have names: "CHR ''/'' \<notin> set ?r \<and> CHR ''/'' \<notin> set ?w"
    by simp
  show ?thesis
    unfolding call using opens names by blast
qed

theorem script_fixed_names_witness:
  "fst (script ''__main__'' [] world_main) = None
   \<and> files (snd (script ''__main__'' [] world_main)) (resolve world_main ''TNG_STOP_WORDS_MSQL'')
       = Some ''a\<newline>able\<newline>about\<newline>''
   \<and> filter is_open (new_events world_main (snd (script ''__main__'' [] world_main)))
       = [EvOpen RD ''mysql_stop_words_raw.txt'', EvOpen WB ''TNG_STOP_WORDS_MSQL'']"
proof -
  have a: "fst (script ''__main__'' [] world_main) = None"
    by (simp add: script_def world_main_def run_defs)
  have b: "files (snd (script ''__main__'' [] world_main)) (resolve world_main ''TNG_STOP_WORDS_MSQL'')
       = Some ''a\<newline>able\<newline>about\<newline>''"
    by (simp add: script_def world_main_def run_defs)
  have c: "filter is_open (new_events world_main (snd (script ''__main__'' [] world_main)))
       = [EvOpen RD ''mysql_stop_words_raw.txt'', EvOpen WB ''TNG_STOP_WORDS_MSQL'']"
    using script_fixed_names [of world_main] a by blast
  from a b c show ?thesis by blast
qed

text \<open>
  C8. For the source content \<^verbatim>\<open>"the   and\nor\tif\n"\<close> the run completes when nothing is
  refused, and a completed run leaves exactly \<^verbatim>\<open>"the\nand\nor\nif\n"\<close> in the destination.
\<close>

theorem scenario_A:
  assumes "files s (resolve s rname) = Some (''the   and\<newline>or'' @ [CHR 0x09] @ ''if\<newline>'')"
  shows "(may_open_r s rname \<and> may_read s rname \<and> may_open_w s wname
          \<and> (\<forall>sofar chunk. may_write s wname sofar chunk)
          \<longrightarrow> fst (proc_mysql_stop_words rname wname s) = None)
     \<and> (fst (proc_mysql_stop_words rname wname s) = None \<longrightarrow>
          files (snd (proc_mysql_stop_words rname wname s)) (resolve s wname)
            = Some ''the\<newline>and\<newline>or\<newline>if\<newline>'')"
proof -
  have words: "split_ws (strip (''the   and\<newline>or'' @ [CHR 0x09] @ ''if\<newline>''))
      = [''the'', ''and'', ''or'', ''if'']"
    by (simp add: strip_def isspace_def)
  have "files (snd (proc_mysql_stop_words rname wname s)) (resolve s wname)
            = Some ''the\<newline>and\<newline>or\<newline>if\<newline>''"
    if "fst (proc_mysql_stop_words rname wname s) = None"
    using proc_success_files [OF assms that] unfolding words
    by (simp add: destination_text_def)
  then show ?thesis using proc_allowed [OF assms] by blast
qed

theorem scenario_A_witness:
  "files world_scenario_A (resolve world_scenario_A ''in'') = Some (''the   and\<newline>or'' @ [CHR 0x09] @ ''if\<newline>'')
   \<and> fst (proc_mysql_stop_words ''in'' ''out'' world_scenario_A) = None
   \<and> files (snd (proc_mysql_stop_words ''in'' ''out'' world_scenario_A)) (resolve world_scenario_A ''out'')
       = Some ''the\<newline>and\<newline>or\<newline>if\<newline>''"
proof -
  have a: "files world_scenario_A (resolve world_scenario_A ''in'') = Some (''the   and\<newline>or'' @ [CHR 0x09] @ ''if\<newline>'')"
    by (simp add: world_scenario_A_def permissive_def example_names_def)
  have b: "may_open_r world_scenario_A ''in'' \<and> may_read world_scenario_A ''in''
      \<and> may_open_w world_scenario_A ''out''
      \<and> (\<forall>sofar chunk. may_write world_scenario_A ''out'' sofar chunk)"
    by (simp add: world_scenario_A_def permissive_def example_names_def)
  from scenario_A [OF a, of "''out''"] a b show ?thesis by blast
qed

text \<open>
  C9. For an empty source the run completes when the files may be opened and read (there
  is nothing to write), and a completed run leaves the destination empty: zero bytes,
  zero lines.
\<close>

theorem empty_source_empty_destination:
  assumes "files s (resolve s rname) = Some []"
  shows "(may_open_r s rname \<and> may_read s rname \<and> may_open_w s wname
          \<longrightarrow> fst (proc_mysql_stop_words rname wname s) = None)
     \<and> (fst (proc_mysql_stop_words rname wname s) = None \<longrightarrow>
          files (snd (proc_mysql_stop_words rname wname s)) (resolve s wname) = Some []
          \<and> lines_of [] = [])"
proof -
  have words: "split_ws (strip []) = []"
    by (simp add: strip_def)
  have "files (snd (proc_mysql_stop_words rname wname s)) (resolve s wname) = Some []"
    if "fst (proc_mysql_stop_words rname wname s) = None"
    using proc_success_files [OF assms that] unfolding words
    by (simp add: destination_text_def)
  moreover have "fst (proc_mysql_stop_words rname wname s) = None"
    if "may_open_r s rname \<and> may_read s rname \<and> may_open_w s wname"
    using that proc_success_iff [OF assms, of wname] unfolding words by simp
  ultimately show ?thesis by (simp add: lines_of_def)
qed

theorem empty_source_empty_destination_witness:
  "files world_empty_source (resolve world_empty_source ''in'') = Some []
   \<and> files world_empty_source (resolve world_empty_source ''out'') = Some ''old content''
   \<and> fst (proc_mysql_stop_words ''in'' ''out'' world_empty_source) = None
   \<and> files (snd (proc_mysql_stop_words ''in'' ''out'' world_empty_source)) (resolve world_empty_source ''out'') = Some []"
proof -
  have a: "files world_empty_source (resolve world_empty_source ''in'') = Some []"
    by (simp add: world_empty_source_def permissive_def example_names_def)
  have b: "files world_empty_source (resolve world_empty_source ''out'') = Some ''old content''"
    by (simp add: world_empty_source_def permissive_def example_names_def)
  have c: "may_open_r world_empty_source ''in'' \<and> may_read world_empty_source ''in''
      \<and> may_open_w world_empty_source ''out''"
    by (simp add: world_empty_source_def permissive_def example_names_def)
  from empty_source_empty_destination [OF a, of "''out''"] a b c show ?thesis by blast
qed

text \<open>
  C10. In every run the source is opened, read whole and closed before the destination is
  opened: the events of a run are nothing (the open of the source failed), or the open
  and the close of the source (the read failed), or its open, read and close, followed,
  when the destination could be opened, by the open of the destination, the writes and
  its close. At most one file handle is open after each event, and none at the end. When
  opening or reading the source fails, no file is changed and the destination is never
  opened.
\<close>

theorem source_closed_before_destination_opened:
  "trace (snd (proc_mysql_stop_words rname wname s))
     = trace s @ new_events s (snd (proc_mysql_stop_words rname wname s))
   \<and> (new_events s (snd (proc_mysql_stop_words rname wname s))
        \<in> {[], [EvOpen RD rname, EvClose rname], [EvOpen RD rname, EvRead rname, EvClose rname]}
      \<or> (\<exists>raw. new_events s (snd (proc_mysql_stop_words rname wname s))
            = [EvOpen RD rname, EvRead rname, EvClose rname, EvOpen WB wname]
              @ map (\<lambda>word. EvWrite wname (word @ [CHR 0x0A])) raw @ [EvClose wname]))
   \<and> (\<forall>n \<in> set (handles_after 0 (new_events s (snd (proc_mysql_stop_words rname wname s)))).
         n \<le> 1)
   \<and> last (0 # handles_after 0 (new_events s (snd (proc_mysql_stop_words rname wname s)))) = 0
   \<and> (files s (resolve s rname) = None \<or> \<not> may_open_r s rname \<or> \<not> may_read s rname \<longrightarrow>
        files (snd (proc_mysql_stop_words rname wname s)) = files s
        \<and> EvOpen WB wname \<notin> set (new_events s (snd (proc_mysql_stop_words rname wname s))))"
proof (cases rule: proc_outcome [of s rname wname])
  case missing
  then show ?thesis by (simp add: new_events_def)
next
  case (no_open T)
  then show ?thesis by (simp add: new_events_def)
next
  case (no_read T)
  then show ?thesis by (simp add: new_events_def)
next
  case (no_create T)
  then show ?thesis by (simp add: new_events_def)
next
  case (writes T)
  let ?raw = "accepted s wname [] (split_ws (strip T))"
  let ?evs = "[EvOpen RD rname, EvRead rname, EvClose rname, EvOpen WB wname]
      @ map (\<lambda>word. EvWrite wname (word @ [CHR 0x0A])) ?raw @ [EvClose wname]"
  have evs: "new_events s (snd (proc_mysql_stop_words rname wname s)) = ?evs"
    using writes(5) by (simp add: new_events_def)
  have tr: "trace (snd (proc_mysql_stop_words rname wname s)) = trace s @ ?evs"
    using writes(5) by simp
  have h: "handles_after 0 ?evs = [1, 1, 0, 1] @ replicate (length ?raw) 1 @ [0]"
    by (simp add: handles_after_writes)
  have le: "\<forall>n \<in> set (handles_after 0 ?evs). n \<le> 1"
    unfolding h by auto
  have lst: "last (0 # handles_after 0 ?evs) = 0"
    unfolding h by simp
  have src: "\<not> (files s (resolve s rname) = None \<or> \<not> may_open_r s rname \<or> \<not> may_read s rname)"
    using writes(1-3) by simp
  show ?thesis
    unfolding evs using tr le lst src by blast
qed

theorem source_closed_before_destination_opened_witness:
  "new_events world_small_disk (snd (proc_mysql_stop_words ''in'' ''out'' world_small_disk))
     = [EvOpen RD ''in'', EvRead ''in'', EvClose ''in'', EvOpen WB ''out'',
        EvWrite ''out'' ''a\<newline>'', EvWrite ''out'' ''b\<newline>'', EvClose ''out'']
   \<and> handles_after 0
        (new_events world_small_disk (snd (proc_mysql_stop_words ''in'' ''out'' world_small_disk)))
     = [1, 1, 0, 1, 1, 1, 0]
   \<and> fst (proc_mysql_stop_words ''in'' ''out'' world_small_disk) = Some (IOError ENOSPC ''out'')
   \<and> files world_no_source (resolve world_no_source ''in'') = None
   \<and> files (snd (proc_mysql_stop_words ''in'' ''out'' world_no_source)) = files world_no_source"
proof -
  have a: "new_events world_small_disk (snd (proc_mysql_stop_words ''in'' ''out'' world_small_disk))
     = [EvOpen RD ''in'', EvRead ''in'', EvClose ''in'', EvOpen WB ''out'',
        EvWrite ''out'' ''a\<newline>'', EvWrite ''out'' ''b\<newline>'', EvClose ''out'']"
    by (simp add: new_events_def world_small_disk_def run_defs)
  have b: "fst (proc_mysql_stop_words ''in'' ''out'' world_small_disk) = Some (IOError ENOSPC ''out'')"
    by (simp add: world_small_disk_def run_defs)
  have c: "files world_no_source (resolve world_no_source ''in'') = None"
    by (simp add: world_no_source_def permissive_def example_names_def)
  have d: "files (snd (proc_mysql_stop_words ''in'' ''out'' world_no_source)) = files world_no_source"
    using source_closed_before_destination_opened [of "''in''" "''out''" world_no_source] c
    by blast
  have e: "handles_after 0
        (new_events world_small_disk (snd (proc_mysql_stop_words ''in'' ''out'' world_small_disk)))
     = [1, 1, 0, 1, 1, 1, 0]"
    unfolding a by simp
  from a b c d e show ?thesis by blast
qed

end
